theory Spec2Isabelle
  imports Complex_Main
begin

section \<open>Array cells: float64 values\<close>

text \<open>
  The notebook \<^verbatim>\<open>notebooks/least_cost_path.ipynb\<close> computes on numpy float64 arrays.
  A cell is a finite number, one of the two infinities, or NaN. The special values follow
  IEEE 754 as numpy applies it elementwise: an invalid operation (\<open>0/0\<close>, \<open>inf - inf\<close>,
  \<open>inf/inf\<close>, \<open>0 * inf\<close>) gives NaN, a nonzero finite number divided by zero gives
  an infinity, and neither raises a Python exception (numpy only warns). On finite operands
  the result is the exact real result: rounding and overflow are not modelled, and zero
  carries no sign.
\<close>

datatype fl = Fin real | PInf | NInf | NaN

fun is_fin :: "fl \<Rightarrow> bool" where
  "is_fin (Fin x) = True"
| "is_fin PInf = False"
| "is_fin NInf = False"
| "is_fin NaN = False"

fun fl_add :: "fl \<Rightarrow> fl \<Rightarrow> fl" where
  "fl_add (Fin x) (Fin y) = Fin (x + y)"
| "fl_add (Fin x) PInf = PInf"
| "fl_add (Fin x) NInf = NInf"
| "fl_add PInf (Fin y) = PInf"
| "fl_add PInf PInf = PInf"
| "fl_add PInf NInf = NaN"
| "fl_add NInf (Fin y) = NInf"
| "fl_add NInf PInf = NaN"
| "fl_add NInf NInf = NInf"
| "fl_add NaN b = NaN"
| "fl_add a NaN = NaN"

fun fl_sub :: "fl \<Rightarrow> fl \<Rightarrow> fl" where
  "fl_sub (Fin x) (Fin y) = Fin (x - y)"
| "fl_sub (Fin x) PInf = NInf"
| "fl_sub (Fin x) NInf = PInf"
| "fl_sub PInf (Fin y) = PInf"
| "fl_sub PInf PInf = NaN"
| "fl_sub PInf NInf = PInf"
| "fl_sub NInf (Fin y) = NInf"
| "fl_sub NInf PInf = NInf"
| "fl_sub NInf NInf = NaN"
| "fl_sub NaN b = NaN"
| "fl_sub a NaN = NaN"

fun fl_mul :: "fl \<Rightarrow> fl \<Rightarrow> fl" where
  "fl_mul (Fin x) (Fin y) = Fin (x * y)"
| "fl_mul (Fin x) PInf = (if x = 0 then NaN else if 0 < x then PInf else NInf)"
| "fl_mul (Fin x) NInf = (if x = 0 then NaN else if 0 < x then NInf else PInf)"
| "fl_mul PInf (Fin y) = (if y = 0 then NaN else if 0 < y then PInf else NInf)"
| "fl_mul PInf PInf = PInf"
| "fl_mul PInf NInf = NInf"
| "fl_mul NInf (Fin y) = (if y = 0 then NaN else if 0 < y then NInf else PInf)"
| "fl_mul NInf PInf = NInf"
| "fl_mul NInf NInf = PInf"
| "fl_mul NaN b = NaN"
| "fl_mul a NaN = NaN"

fun fl_div :: "fl \<Rightarrow> fl \<Rightarrow> fl" where
  "fl_div (Fin x) (Fin y) =
     (if y = 0 then (if x = 0 then NaN else if 0 < x then PInf else NInf)
      else Fin (x / y))"
| "fl_div (Fin x) PInf = Fin 0"
| "fl_div (Fin x) NInf = Fin 0"
| "fl_div PInf (Fin y) = (if 0 \<le> y then PInf else NInf)"
| "fl_div PInf PInf = NaN"
| "fl_div PInf NInf = NaN"
| "fl_div NInf (Fin y) = (if 0 \<le> y then NInf else PInf)"
| "fl_div NInf PInf = NaN"
| "fl_div NInf NInf = NaN"
| "fl_div NaN b = NaN"
| "fl_div a NaN = NaN"

text \<open>The comparison \<open><\<close> of two floats; it is false as soon as one side is NaN.\<close>

fun fl_lt :: "fl \<Rightarrow> fl \<Rightarrow> bool" where
  "fl_lt (Fin x) (Fin y) = (x < y)"
| "fl_lt (Fin x) PInf = True"
| "fl_lt (Fin x) NInf = False"
| "fl_lt PInf b = False"
| "fl_lt NInf (Fin y) = True"
| "fl_lt NInf PInf = True"
| "fl_lt NInf NInf = False"
| "fl_lt NInf NaN = False"
| "fl_lt (Fin x) NaN = False"
| "fl_lt NaN b = False"

fun fl_sqrt :: "fl \<Rightarrow> fl" where
  "fl_sqrt (Fin x) = (if x < 0 then NaN else Fin (sqrt x))"
| "fl_sqrt PInf = PInf"
| "fl_sqrt NInf = NaN"
| "fl_sqrt NaN = NaN"

fun fl_arctan :: "fl \<Rightarrow> fl" where
  "fl_arctan (Fin x) = Fin (arctan x)"
| "fl_arctan PInf = Fin (pi / 2)"
| "fl_arctan NInf = Fin (- (pi / 2))"
| "fl_arctan NaN = NaN"

text \<open>\<^verbatim>\<open>np.degrees\<close>: radians to degrees, \<open>x * 180 / pi\<close>.\<close>

fun fl_degrees :: "fl \<Rightarrow> fl" where
  "fl_degrees (Fin x) = Fin (x * 180 / pi)"
| "fl_degrees PInf = PInf"
| "fl_degrees NInf = NInf"
| "fl_degrees NaN = NaN"

section \<open>Grids\<close>

text \<open>
  A two-dimensional array is the list of its rows. numpy arrays are rectangular:
  \<open>rect n m g\<close> says that \<open>g\<close> has shape \<open>(n, m)\<close>.
\<close>

type_synonym grid = "fl list list"

definition rect :: "nat \<Rightarrow> nat \<Rightarrow> grid \<Rightarrow> bool" where
  "rect n m g = (length g = n \<and> list_all (\<lambda>row. length row = m) g)"

definition grid_map :: "(fl \<Rightarrow> fl) \<Rightarrow> grid \<Rightarrow> grid" where
  "grid_map f g = map (map f) g"

datatype error = ValueError | TransformNotInvertibleError

section \<open>Cost surface (notebook cell 9 and cell 11)\<close>

text \<open>
  \<^verbatim>\<open>slope.min()\<close> and \<^verbatim>\<open>slope.max()\<close> are xarray reductions over all cells of a float
  array: they skip NaN (numpy's \<^verbatim>\<open>nanmin\<close>, \<^verbatim>\<open>nanmax\<close>), they do not skip the infinities,
  they give NaN when every cell is NaN, and they raise \<^verbatim>\<open>ValueError\<close> on an array with
  no cell.
\<close>

definition fl_min :: "fl \<Rightarrow> fl \<Rightarrow> fl" where
  "fl_min a b = (if fl_lt b a then b else a)"

definition fl_max :: "fl \<Rightarrow> fl \<Rightarrow> fl" where
  "fl_max a b = (if fl_lt a b then b else a)"

definition nanmin :: "fl list \<Rightarrow> fl" where
  "nanmin xs = (case filter (\<lambda>x. x \<noteq> NaN) xs of [] \<Rightarrow> NaN | y # ys \<Rightarrow> fold fl_min ys y)"

definition nanmax :: "fl list \<Rightarrow> fl" where
  "nanmax xs = (case filter (\<lambda>x. x \<noteq> NaN) xs of [] \<Rightarrow> NaN | y # ys \<Rightarrow> fold fl_max ys y)"

text \<open>
  Cell 9: \<^verbatim>\<open>slope_normalized = (slope - slope.min()) / (slope.max() - slope.min())\<close>,
  with the two scalars broadcast over the array; the argument \<open>cells\<close> is the flattened
  array the reductions run over.
\<close>

definition slope_normalized_cell :: "fl \<Rightarrow> fl \<Rightarrow> fl \<Rightarrow> fl" where
  "slope_normalized_cell mn mx s = fl_div (fl_sub s mn) (fl_sub mx mn)"

text \<open>Cell 9: \<^verbatim>\<open>cost_surface = 1 + (slope_normalized * 9)\<close>.\<close>

definition cost_surface_cell :: "fl \<Rightarrow> fl \<Rightarrow> fl \<Rightarrow> fl" where
  "cost_surface_cell mn mx s = fl_add (Fin 1) (fl_mul (slope_normalized_cell mn mx s) (Fin 9))"

definition cost_surface :: "grid \<Rightarrow> error + grid" where
  "cost_surface slope =
     (if concat slope = [] then Inl ValueError
      else Inr (grid_map (cost_surface_cell (nanmin (concat slope)) (nanmax (concat slope))) slope))"

text \<open>
  Cell 11: \<^verbatim>\<open>cost_array = np.nan_to_num(cost_surface.values, nan=9999, posinf=9999, neginf=9999)\<close>.
\<close>

fun nan_to_num :: "real \<Rightarrow> real \<Rightarrow> real \<Rightarrow> fl \<Rightarrow> fl" where
  "nan_to_num nan posinf neginf (Fin x) = Fin x"
| "nan_to_num nan posinf neginf PInf = Fin posinf"
| "nan_to_num nan posinf neginf NInf = Fin neginf"
| "nan_to_num nan posinf neginf NaN = Fin nan"

definition cost_array :: "grid \<Rightarrow> grid" where
  "cost_array cs = grid_map (nan_to_num 9999 9999 9999) cs"

text \<open>The cost grid the router receives for a slope grid: cell 9, then cell 11.\<close>

definition cost_array_of_slope :: "grid \<Rightarrow> error + grid" where
  "cost_array_of_slope slope =
     (case cost_surface slope of Inl e \<Rightarrow> Inl e | Inr cs \<Rightarrow> Inr (cost_array cs))"

section \<open>Slope (notebook cell 8)\<close>

text \<open>
  \<^verbatim>\<open>np.gradient(f, d0, d1)\<close> with the default \<^verbatim>\<open>edge_order=1\<close> and one scalar spacing per
  axis. Along an axis of \<open>n\<close> samples with spacing \<open>dx\<close> it computes
  \<^verbatim>\<open>(f[i+1] - f[i-1]) / (2. * dx)\<close> at the interior indices,
  \<^verbatim>\<open>(f[1] - f[0]) / dx\<close> at index 0 and \<^verbatim>\<open>(f[-1] - f[-2]) / dx\<close> at the last index.
  \<open>diff_at f n dx i\<close> is that quotient at index \<open>i\<close>, the samples given as a function
  of the index.
\<close>

definition diff_at :: "(nat \<Rightarrow> fl) \<Rightarrow> nat \<Rightarrow> fl \<Rightarrow> nat \<Rightarrow> fl" where
  "diff_at f n dx i =
     (if i = 0 then fl_div (fl_sub (f 1) (f 0)) dx
      else if i = n - 1 then fl_div (fl_sub (f (n - 1)) (f (n - 2))) dx
      else fl_div (fl_sub (f (i + 1)) (f (i - 1))) (fl_mul (Fin 2) dx))"

text \<open>
  The gradient of a two-dimensional array: one array per axis, axis 0 (down the rows)
  first, the spacings in the same order. numpy raises \<^verbatim>\<open>ValueError\<close> when an axis has
  fewer than two samples.
\<close>

definition gradient :: "grid \<Rightarrow> real \<Rightarrow> real \<Rightarrow> error + (grid \<times> grid)" where
  "gradient f d0 d1 =
     (let n = length f; m = (case f of [] \<Rightarrow> 0 | row # _ \<Rightarrow> length row) in
      if n < 2 \<or> m < 2 then Inl ValueError
      else Inr (map (\<lambda>i. map (\<lambda>j. diff_at (\<lambda>k. f ! k ! j) n (Fin d0) i) [0..<m]) [0..<n],
                map (\<lambda>i. map (\<lambda>j. diff_at (\<lambda>k. f ! i ! k) m (Fin d1) j) [0..<m]) [0..<n]))"

text \<open>
  \<^verbatim>\<open>np.degrees(np.arctan(np.sqrt(dz_dx**2 + dz_dy**2)))\<close>, cell by cell.
\<close>

definition slope_degrees_cell :: "fl \<Rightarrow> fl \<Rightarrow> fl" where
  "slope_degrees_cell dz_dx dz_dy =
     fl_degrees (fl_arctan (fl_sqrt (fl_add (fl_mul dz_dx dz_dx) (fl_mul dz_dy dz_dy))))"

text \<open>
  Cell 8, from the elevation array \<^verbatim>\<open>dem.values\<close> and the pair that
  \<^verbatim>\<open>dem.rio.resolution()\<close> returns. rioxarray returns the pair as
  \<open>(x_resolution, y_resolution)\<close>: the spacing between columns first, the spacing between
  rows second. The notebook unpacks it as \<^verbatim>\<open>res_y, res_x = map(abs, dem.rio.resolution())\<close>
  and passes \<^verbatim>\<open>res_y\<close> as the spacing of axis 0 and \<^verbatim>\<open>res_x\<close> as the spacing of axis 1.
\<close>

definition slope_degrees :: "grid \<Rightarrow> real \<times> real \<Rightarrow> error + grid" where
  "slope_degrees dem_values resolution =
     (case resolution of (x_resolution, y_resolution) \<Rightarrow>
        let res_y = \<bar>x_resolution\<bar>; res_x = \<bar>y_resolution\<bar> in
        case gradient dem_values res_y res_x of
          Inl e \<Rightarrow> Inl e
        | Inr (dz_dx, dz_dy) \<Rightarrow> Inr (map2 (map2 slope_degrees_cell) dz_dx dz_dy))"

text \<open>Cells 8, 9 and 11 in sequence: from the elevation array to the routing cost array.\<close>

definition cost_array_of_dem :: "grid \<Rightarrow> real \<times> real \<Rightarrow> error + grid" where
  "cost_array_of_dem dem_values resolution =
     (case slope_degrees dem_values resolution of
        Inl e \<Rightarrow> Inl e
      | Inr slope \<Rightarrow> cost_array_of_slope slope)"

text \<open>
  The indices a difference quotient of \<open>diff_at\<close> reads along an axis of \<open>n\<close> samples,
  and the test whether one of the elevations read for cell \<open>(r, c)\<close> is NaN.
\<close>

definition stencil :: "nat \<Rightarrow> nat \<Rightarrow> nat list" where
  "stencil n i = (if i = 0 then [1, 0] else if i = n - 1 then [n - 1, n - 2] else [i + 1, i - 1])"

definition nan_in_stencil :: "grid \<Rightarrow> nat \<Rightarrow> nat \<Rightarrow> bool" where
  "nan_in_stencil elev r c =
     (list_ex (\<lambda>i. elev ! i ! c = NaN) (stencil (length elev) r)
      \<or> list_ex (\<lambda>j. elev ! r ! j = NaN) (stencil (length (elev ! r)) c))"

definition axis_adjacent :: "nat \<times> nat \<Rightarrow> nat \<times> nat \<Rightarrow> bool" where
  "axis_adjacent p q =
     (case (p, q) of ((i, j), (r, c)) \<Rightarrow>
        (j = c \<and> (i = r + 1 \<or> r = i + 1)) \<or> (i = r \<and> (j = c + 1 \<or> c = j + 1)))"

section \<open>Ground coordinates to array indices (notebook cell 10)\<close>

text \<open>
  The affine transform \<^verbatim>\<open>slope.rio.transform()\<close>, with the six coefficients of the
  \<^verbatim>\<open>affine\<close> package: \<open>x = a * col + b * row + c\<close> and \<open>y = d * col + e * row + f\<close>.
\<close>

record affine =
  af_a :: real
  af_b :: real
  af_c :: real
  af_d :: real
  af_e :: real
  af_f :: real

definition determinant :: "affine \<Rightarrow> real" where
  "determinant t = af_a t * af_e t - af_b t * af_d t"

text \<open>\<^verbatim>\<open>~transform\<close>: the inverse, or \<^verbatim>\<open>TransformNotInvertibleError\<close> when the determinant is 0.\<close>

definition invert :: "affine \<Rightarrow> error + affine" where
  "invert t =
     (if determinant t = 0 then Inl TransformNotInvertibleError
      else
        let idet = 1 / determinant t;
            ra = af_e t * idet;
            rb = - af_b t * idet;
            rd = - af_d t * idet;
            re = af_a t * idet
        in Inr \<lparr>af_a = ra, af_b = rb, af_c = - af_c t * ra - af_f t * rb,
                 af_d = rd, af_e = re, af_f = - af_c t * rd - af_f t * re\<rparr>)"

text \<open>\<^verbatim>\<open>transform * (vx, vy)\<close>: the transform applied to a point.\<close>

definition apply_affine :: "affine \<Rightarrow> real \<times> real \<Rightarrow> real \<times> real" where
  "apply_affine t p =
     (case p of (vx, vy) \<Rightarrow>
        (vx * af_a t + vy * af_b t + af_c t, vx * af_d t + vy * af_e t + af_f t))"

text \<open>
  \<^verbatim>\<open>rasterio.transform.rowcol(transform, x, y)\<close> with the default \<^verbatim>\<open>op=math.floor\<close>:
  the inverse transform gives fractional \<open>(col, row)\<close>, each is floored, and the pair is
  returned as \<open>(row, col)\<close>. The function is given no array shape.
\<close>

definition rowcol :: "affine \<Rightarrow> real \<Rightarrow> real \<Rightarrow> error + (int \<times> int)" where
  "rowcol transform x y =
     (case invert transform of
        Inl e \<Rightarrow> Inl e
      | Inr rt \<Rightarrow> (case apply_affine rt (x, y) of (fcol, frow) \<Rightarrow> Inr (\<lfloor>frow\<rfloor>, \<lfloor>fcol\<rfloor>)))"

text \<open>Whether \<open>(row, col)\<close> is an index of an array of shape \<open>(height, width)\<close>.\<close>

definition in_grid :: "nat \<Rightarrow> nat \<Rightarrow> int \<times> int \<Rightarrow> bool" where
  "in_grid height width idx =
     (case idx of (row, col) \<Rightarrow> 0 \<le> row \<and> row < int height \<and> 0 \<le> col \<and> col < int width)"

text \<open>A cost in the interval \<open>[1, 10]\<close>.\<close>

fun in_1_10 :: "fl \<Rightarrow> bool" where
  "in_1_10 (Fin y) = (1 \<le> y \<and> y \<le> 10)"
| "in_1_10 PInf = False"
| "in_1_10 NInf = False"
| "in_1_10 NaN = False"

section \<open>Ordering facts and the reductions\<close>

lemma fl_lt_irrefl: "\<not> fl_lt a a"
  by (cases a) auto

lemma fl_lt_trans: "fl_lt a b \<Longrightarrow> fl_lt b c \<Longrightarrow> fl_lt a c"
  by (cases a; cases b; cases c) auto

lemma fl_lt_total: "a \<noteq> NaN \<Longrightarrow> b \<noteq> NaN \<Longrightarrow> fl_lt a b \<or> a = b \<or> fl_lt b a"
  by (cases a; cases b) auto

lemma fl_le_trans:
  "a \<noteq> NaN \<Longrightarrow> b \<noteq> NaN \<Longrightarrow> c \<noteq> NaN \<Longrightarrow> \<not> fl_lt b a \<Longrightarrow> \<not> fl_lt c b \<Longrightarrow> \<not> fl_lt c a"
  by (cases a; cases b; cases c) auto

lemma fold_fl_min_in: "fold fl_min ys y \<in> set (y # ys)"
  by (induction ys arbitrary: y) (auto simp: fl_min_def)

lemma fl_min_lower: "a \<noteq> NaN \<Longrightarrow> y \<noteq> NaN \<Longrightarrow> \<not> fl_lt a (fl_min a y) \<and> \<not> fl_lt y (fl_min a y)"
  by (cases a; cases y) (auto simp: fl_min_def)

lemma fold_fl_min_lower:
  "NaN \<notin> set (y # ys) \<Longrightarrow> \<forall>z\<in>set (y # ys). \<not> fl_lt z (fold fl_min ys y)"
proof (induction ys arbitrary: y)
  case Nil
  then show ?case by (simp add: fl_lt_irrefl)
next
  case (Cons a ys)
  let ?m = "fl_min a y"
  let ?F = "fold fl_min ys ?m"
  have nn: "NaN \<notin> set (?m # ys)" using Cons.prems by (auto simp: fl_min_def)
  have ih: "\<forall>z\<in>set (?m # ys). \<not> fl_lt z ?F" by (rule Cons.IH[OF nn])
  have nF: "?F \<noteq> NaN" using fold_fl_min_in[of ys ?m] nn by auto
  have nm: "?m \<noteq> NaN" using nn by auto
  have na: "a \<noteq> NaN" and ny: "y \<noteq> NaN" using Cons.prems by auto
  have mF: "\<not> fl_lt ?m ?F" using ih by simp
  have "\<not> fl_lt a ?F"
    using fl_le_trans[OF nF nm na mF] fl_min_lower[OF na ny] by simp
  moreover have "\<not> fl_lt y ?F"
    using fl_le_trans[OF nF nm ny mF] fl_min_lower[OF na ny] by simp
  ultimately show ?case using ih by simp
qed

lemma fold_fl_max_in: "fold fl_max ys y \<in> set (y # ys)"
  by (induction ys arbitrary: y) (auto simp: fl_max_def)

lemma fl_max_upper: "a \<noteq> NaN \<Longrightarrow> y \<noteq> NaN \<Longrightarrow> \<not> fl_lt (fl_max a y) a \<and> \<not> fl_lt (fl_max a y) y"
  by (cases a; cases y) (auto simp: fl_max_def)

lemma fold_fl_max_upper:
  "NaN \<notin> set (y # ys) \<Longrightarrow> \<forall>z\<in>set (y # ys). \<not> fl_lt (fold fl_max ys y) z"
proof (induction ys arbitrary: y)
  case Nil
  then show ?case by (simp add: fl_lt_irrefl)
next
  case (Cons a ys)
  let ?m = "fl_max a y"
  let ?F = "fold fl_max ys ?m"
  have nn: "NaN \<notin> set (?m # ys)" using Cons.prems by (auto simp: fl_max_def)
  have ih: "\<forall>z\<in>set (?m # ys). \<not> fl_lt ?F z" by (rule Cons.IH[OF nn])
  have nF: "?F \<noteq> NaN" using fold_fl_max_in[of ys ?m] nn by auto
  have nm: "?m \<noteq> NaN" using nn by auto
  have na: "a \<noteq> NaN" and ny: "y \<noteq> NaN" using Cons.prems by auto
  have mF: "\<not> fl_lt ?F ?m" using ih by simp
  have "\<not> fl_lt ?F a"
    using fl_le_trans[OF na nm nF _ mF] fl_max_upper[OF na ny] by simp
  moreover have "\<not> fl_lt ?F y"
    using fl_le_trans[OF ny nm nF _ mF] fl_max_upper[OF na ny] by simp
  ultimately show ?case using ih by simp
qed

lemma filter_nan_free: "filter (\<lambda>x. x \<noteq> NaN) xs = y # ys \<Longrightarrow> NaN \<notin> set (y # ys)"
proof -
  assume e: "filter (\<lambda>x. x \<noteq> NaN) xs = y # ys"
  have "NaN \<notin> set (filter (\<lambda>x. x \<noteq> NaN) xs)" by simp
  then show ?thesis unfolding e .
qed

lemma nanmin_lower: "z \<in> set xs \<Longrightarrow> z \<noteq> NaN \<Longrightarrow> \<not> fl_lt z (nanmin xs)"
proof -
  assume z: "z \<in> set xs" "z \<noteq> NaN"
  let ?f = "filter (\<lambda>x. x \<noteq> NaN) xs"
  from z have zf: "z \<in> set ?f" by simp
  then obtain y ys where e: "?f = y # ys" by (cases ?f) auto
  have "NaN \<notin> set (y # ys)" using e by (rule filter_nan_free)
  from fold_fl_min_lower[OF this] zf e show ?thesis by (auto simp add: nanmin_def)
qed

lemma nanmax_upper: "z \<in> set xs \<Longrightarrow> z \<noteq> NaN \<Longrightarrow> \<not> fl_lt (nanmax xs) z"
proof -
  assume z: "z \<in> set xs" "z \<noteq> NaN"
  let ?f = "filter (\<lambda>x. x \<noteq> NaN) xs"
  from z have zf: "z \<in> set ?f" by simp
  then obtain y ys where e: "?f = y # ys" by (cases ?f) auto
  have "NaN \<notin> set (y # ys)" using e by (rule filter_nan_free)
  from fold_fl_max_upper[OF this] zf e show ?thesis by (auto simp add: nanmax_def)
qed

lemma nanmin_in: "z \<in> set xs \<Longrightarrow> z \<noteq> NaN \<Longrightarrow> nanmin xs \<in> set xs \<and> nanmin xs \<noteq> NaN"
proof -
  assume z: "z \<in> set xs" "z \<noteq> NaN"
  let ?f = "filter (\<lambda>x. x \<noteq> NaN) xs"
  from z have zf: "z \<in> set ?f" by simp
  then obtain y ys where e: "?f = y # ys" by (cases ?f) auto
  have "fold fl_min ys y \<in> set ?f" using fold_fl_min_in[of ys y] e by simp
  then have "fold fl_min ys y \<in> set xs \<and> fold fl_min ys y \<noteq> NaN" by simp
  then show ?thesis using e by (simp add: nanmin_def)
qed

lemma nanmax_in: "z \<in> set xs \<Longrightarrow> z \<noteq> NaN \<Longrightarrow> nanmax xs \<in> set xs \<and> nanmax xs \<noteq> NaN"
proof -
  assume z: "z \<in> set xs" "z \<noteq> NaN"
  let ?f = "filter (\<lambda>x. x \<noteq> NaN) xs"
  from z have zf: "z \<in> set ?f" by simp
  then obtain y ys where e: "?f = y # ys" by (cases ?f) auto
  have "fold fl_max ys y \<in> set ?f" using fold_fl_max_in[of ys y] e by simp
  then have "fold fl_max ys y \<in> set xs \<and> fold fl_max ys y \<noteq> NaN" by simp
  then show ?thesis using e by (simp add: nanmax_def)
qed

section \<open>The cost surface\<close>

lemma cost_array_of_slope_cell:
  assumes "cost_array_of_slope slope = Inr c" and "i < length slope" and "j < length (slope ! i)"
  shows "c ! i ! j = nan_to_num 9999 9999 9999
           (cost_surface_cell (nanmin (concat slope)) (nanmax (concat slope)) (slope ! i ! j))"
  using assms
  by (auto simp: cost_array_of_slope_def cost_surface_def cost_array_def grid_map_def
           split: if_splits)

lemma cell_in_concat: "i < length g \<Longrightarrow> j < length (g ! i) \<Longrightarrow> g ! i ! j \<in> set (concat g)"
  by (metis concat.simps(2) nth_mem set_concat UN_I)

lemma scale_bounds: "0 \<le> q \<Longrightarrow> q \<le> 1 \<Longrightarrow> 1 \<le> 1 + q * 9 \<and> 1 + q * 9 \<le> (10::real)"
  by simp

lemma cost_cell_in_range:
  assumes "m \<le> x" and "fl_lt (Fin m) mx" and "\<not> fl_lt mx (Fin x)"
  shows "in_1_10 (nan_to_num 9999 9999 9999 (cost_surface_cell (Fin m) mx (Fin x)))"
proof (cases mx)
  case (Fin M)
  with assms have mM: "m < M" and xM: "x \<le> M" by auto
  have lo: "0 \<le> (x - m) / (M - m)" using assms(1) mM by simp
  have hi: "(x - m) / (M - m) \<le> 1" using xM mM by simp
  have "cost_surface_cell (Fin m) mx (Fin x) = Fin (1 + (x - m) / (M - m) * 9)"
    using Fin mM by (simp add: cost_surface_cell_def slope_normalized_cell_def)
  moreover have "1 \<le> 1 + (x - m) / (M - m) * 9 \<and> 1 + (x - m) / (M - m) * 9 \<le> 10"
    by (rule scale_bounds[OF lo hi])
  ultimately show ?thesis by (simp del: times_divide_eq_left)
next
  case PInf
  then show ?thesis by (simp add: cost_surface_cell_def slope_normalized_cell_def)
next
  case NInf
  with assms show ?thesis by simp
next
  case NaN
  with assms show ?thesis by simp
qed

lemma nan_to_num_fin: "is_fin (nan_to_num a b c x)"
  by (cases x) auto

lemma cost_cell_invalid:
  "\<not> is_fin s \<Longrightarrow> nan_to_num 9999 9999 9999 (cost_surface_cell mn mx s) = Fin 9999"
  by (cases s; cases mn; cases mx)
     (auto simp: cost_surface_cell_def slope_normalized_cell_def)

text \<open>
  Claim C2, as the code has it. Let the slope grid be non-empty and \<open>(i, j)\<close> one of its
  cells. If the slope there is finite, the smallest non-NaN slope is finite and strictly
  below the largest one, then the cost lies in \<open>[1, 10]\<close>. A cell whose slope is NaN,
  \<open>+inf\<close> or \<open>-inf\<close> costs exactly 9999, and no cell of the cost array is NaN or
  infinite. (When all valid slopes are equal the normalisation is \<open>0/0\<close>: see
  the counterexample below.)
\<close>

theorem cost_array_cells:
  assumes "cost_array_of_slope slope = Inr c" and "i < length slope" and "j < length (slope ! i)"
  shows "(is_fin (slope ! i ! j) \<and> is_fin (nanmin (concat slope))
            \<and> fl_lt (nanmin (concat slope)) (nanmax (concat slope)) \<longrightarrow> in_1_10 (c ! i ! j))
       \<and> (\<not> is_fin (slope ! i ! j) \<longrightarrow> c ! i ! j = Fin 9999)
       \<and> is_fin (c ! i ! j)"
proof -
  let ?mn = "nanmin (concat slope)" and ?mx = "nanmax (concat slope)" and ?s = "slope ! i ! j"
  have cell: "c ! i ! j = nan_to_num 9999 9999 9999 (cost_surface_cell ?mn ?mx ?s)"
    by (rule cost_array_of_slope_cell[OF assms])
  have mem: "?s \<in> set (concat slope)" by (rule cell_in_concat[OF assms(2,3)])
  have a: "in_1_10 (c ! i ! j)"
    if h: "is_fin ?s" "is_fin ?mn" "fl_lt ?mn ?mx"
  proof -
    from h(1) obtain x where x: "?s = Fin x" by (cases ?s) auto
    from h(2) obtain m where m: "?mn = Fin m" by (cases ?mn) auto
    have nn: "?s \<noteq> NaN" using x by simp
    have "\<not> fl_lt ?s ?mn" by (rule nanmin_lower[OF mem nn])
    then have mx: "m \<le> x" using x m by simp
    have up: "\<not> fl_lt ?mx (Fin x)" using nanmax_upper[OF mem nn] x by simp
    have "fl_lt (Fin m) ?mx" using h(3) m by simp
    from cost_cell_in_range[OF mx this up] show ?thesis using cell x m by simp
  qed
  have b: "c ! i ! j = Fin 9999" if "\<not> is_fin ?s"
    using cell cost_cell_invalid[OF that] by simp
  have "is_fin (c ! i ! j)" using cell by (simp add: nan_to_num_fin)
  with a b show ?thesis by blast
qed

theorem cost_array_cells_witness:
  "cost_array_of_slope [[Fin 0, NaN], [Fin 45, Fin 90]] = Inr [[Fin 1, Fin 9999], [Fin (11 / 2), Fin 10]]
   \<and> in_1_10 (Fin (11 / 2)) \<and> is_fin (Fin (11 / 2))"
proof -
  have e: "cost_array_of_slope [[Fin 0, NaN], [Fin 45, Fin 90]]
             = Inr [[Fin 1, Fin 9999], [Fin (11 / 2), Fin 10]]"
    by (simp add: cost_array_of_slope_def cost_surface_def cost_array_def grid_map_def
          nanmin_def nanmax_def fl_min_def fl_max_def cost_surface_cell_def slope_normalized_cell_def)
  have mn: "nanmin (concat [[Fin 0, NaN], [Fin 45, Fin 90]]) = Fin 0"
    by (simp add: nanmin_def fl_min_def)
  have mx: "nanmax (concat [[Fin 0, NaN], [Fin 45, Fin 90]]) = Fin 90"
    by (simp add: nanmax_def fl_max_def)
  show ?thesis
    using cost_array_cells[OF e, of 1 0] e mn mx by simp
qed

text \<open>
  Claim C2 as stated fails on a uniform slope grid: both cells hold the valid slope 0,
  and both cost 9999, outside \<open>[1, 10]\<close>.
\<close>

theorem flat_slope_cost_counterexample:
  "cost_array_of_slope [[Fin 0, Fin 0]] = Inr [[Fin 9999, Fin 9999]]
   \<and> is_fin (Fin 0) \<and> \<not> in_1_10 (Fin 9999)"
  by (simp add: cost_array_of_slope_def cost_surface_def cost_array_def grid_map_def
        nanmin_def nanmax_def fl_min_def fl_max_def cost_surface_cell_def slope_normalized_cell_def)

lemma uniform_cell_penalty:
  assumes all: "\<forall>x\<in>set cells. x = Fin u \<or> x = NaN" and s: "s \<in> set cells"
  shows "nan_to_num 9999 9999 9999 (cost_surface_cell (nanmin cells) (nanmax cells) s) = Fin 9999"
proof (cases "s = NaN")
  case True
  then show ?thesis by (simp add: cost_cell_invalid)
next
  case False
  with all s have su: "s = Fin u" by auto
  have "nanmin cells \<in> set cells \<and> nanmin cells \<noteq> NaN" by (rule nanmin_in[OF s False])
  with all have mn: "nanmin cells = Fin u" by auto
  have "nanmax cells \<in> set cells \<and> nanmax cells \<noteq> NaN" by (rule nanmax_in[OF s False])
  with all have mx: "nanmax cells = Fin u" by auto
  show ?thesis using su mn mx by (simp add: cost_surface_cell_def slope_normalized_cell_def)
qed

text \<open>
  Claim C3, as the code has it. On a non-empty slope grid whose valid cells all hold the
  same value \<open>u\<close> (the other cells NaN), the code has no special case: the
  normalisation divides \<open>0\<close> by \<open>0\<close>, which gives NaN without raising, and after the
  substitution of cell 11 every cell of the cost array, valid or not, is 9999.
\<close>

theorem uniform_slope_all_penalty:
  assumes "concat slope \<noteq> []" and "\<forall>x\<in>set (concat slope). x = Fin u \<or> x = NaN"
  shows "\<exists>c. cost_array_of_slope slope = Inr c
           \<and> (\<forall>i<length slope. \<forall>j<length (slope ! i). c ! i ! j = Fin 9999)"
proof -
  obtain c where c: "cost_array_of_slope slope = Inr c"
    using assms(1) by (simp add: cost_array_of_slope_def cost_surface_def)
  have "c ! i ! j = Fin 9999" if "i < length slope" "j < length (slope ! i)" for i j
    using cost_array_of_slope_cell[OF c that] uniform_cell_penalty[OF assms(2) cell_in_concat[OF that]]
    by simp
  with c show ?thesis by blast
qed

theorem uniform_slope_all_penalty_witness:
  "cost_array_of_slope [[Fin 7, Fin 7], [NaN, Fin 7]] = Inr [[Fin 9999, Fin 9999], [Fin 9999, Fin 9999]]"
proof -
  have a: "concat [[Fin 7, Fin 7], [NaN, Fin 7]] \<noteq> []" by simp
  have b: "\<forall>x\<in>set (concat [[Fin 7, Fin 7], [NaN, Fin 7]]). x = Fin 7 \<or> x = NaN" by simp
  from uniform_slope_all_penalty[OF a b] obtain c where
    c: "cost_array_of_slope [[Fin 7, Fin 7], [NaN, Fin 7]] = Inr c" by blast
  show ?thesis
    by (simp add: cost_array_of_slope_def cost_surface_def cost_array_def grid_map_def
        nanmin_def nanmax_def fl_min_def fl_max_def cost_surface_cell_def slope_normalized_cell_def)
qed

text \<open>
  Claim C3 as stated fails on the slope grid of a flat elevation grid (all zeros): the cost
  of every cell is 9999, not 1.
\<close>

theorem flat_grid_not_ones_counterexample:
  "cost_array_of_slope [[Fin 0, Fin 0], [Fin 0, Fin 0]] = Inr [[Fin 9999, Fin 9999], [Fin 9999, Fin 9999]]
   \<and> Fin 9999 \<noteq> Fin 1"
  by (simp add: cost_array_of_slope_def cost_surface_def cost_array_def grid_map_def
        nanmin_def nanmax_def fl_min_def fl_max_def cost_surface_cell_def slope_normalized_cell_def)

section \<open>The slope and the pipeline\<close>

lemma fl_add_NaN_right: "fl_add a NaN = NaN" by (cases a) auto
lemma fl_sub_NaN_right: "fl_sub a NaN = NaN" by (cases a) auto
lemma fl_mul_NaN_right: "fl_mul a NaN = NaN" by (cases a) auto
lemma fl_div_NaN_right: "fl_div a NaN = NaN" by (cases a) auto

lemma slope_degrees_cell_NaN:
  "dz_dx = NaN \<or> dz_dy = NaN \<Longrightarrow> slope_degrees_cell dz_dx dz_dy = NaN"
  by (auto simp: slope_degrees_cell_def fl_add_NaN_right)

lemma diff_at_NaN:
  assumes "k \<in> set (stencil n i)" and "f k = NaN"
  shows "diff_at f n dx i = NaN"
  using assms
  by (auto simp: diff_at_def stencil_def fl_sub_NaN_right split: if_splits)

lemma rect_row: "rect n m g \<Longrightarrow> i < n \<Longrightarrow> length (g ! i) = m"
  by (auto simp: rect_def list_all_length)

lemma rect_hd: "rect n m g \<Longrightarrow> 0 < n \<Longrightarrow> (case g of [] \<Rightarrow> 0 | row # _ \<Rightarrow> length row) = m"
  by (cases g) (auto simp: rect_def)

lemma gradient_cells:
  assumes "rect n m f" and "2 \<le> n" and "2 \<le> m"
  shows "\<exists>g0 g1. gradient f d0 d1 = Inr (g0, g1) \<and> rect n m g0 \<and> rect n m g1
           \<and> (\<forall>i<n. \<forall>j<m. g0 ! i ! j = diff_at (\<lambda>k. f ! k ! j) n (Fin d0) i
                            \<and> g1 ! i ! j = diff_at (\<lambda>k. f ! i ! k) m (Fin d1) j)"
proof -
  have n: "length f = n" using assms(1) by (simp add: rect_def)
  have m: "(case f of [] \<Rightarrow> 0 | row # _ \<Rightarrow> length row) = m"
    using rect_hd[OF assms(1)] assms(2) by simp
  show ?thesis
    using assms(2,3) by (simp add: gradient_def n m rect_def list_all_length)
qed

lemma slope_degrees_cells:
  assumes "rect n m elev" and "2 \<le> n" and "2 \<le> m"
  shows "\<exists>slope. slope_degrees elev (rx, ry) = Inr slope \<and> rect n m slope
           \<and> (\<forall>i<n. \<forall>j<m. slope ! i ! j =
                 slope_degrees_cell (diff_at (\<lambda>k. elev ! k ! j) n (Fin \<bar>rx\<bar>) i)
                                    (diff_at (\<lambda>k. elev ! i ! k) m (Fin \<bar>ry\<bar>) j))"
proof -
  from gradient_cells[OF assms, of "\<bar>rx\<bar>" "\<bar>ry\<bar>"] obtain g0 g1 where
    g: "gradient elev \<bar>rx\<bar> \<bar>ry\<bar> = Inr (g0, g1)" and r0: "rect n m g0" and r1: "rect n m g1"
    and cells: "\<forall>i<n. \<forall>j<m. g0 ! i ! j = diff_at (\<lambda>k. elev ! k ! j) n (Fin \<bar>rx\<bar>) i
                            \<and> g1 ! i ! j = diff_at (\<lambda>k. elev ! i ! k) m (Fin \<bar>ry\<bar>) j"
    by blast
  let ?s = "map2 (map2 slope_degrees_cell) g0 g1"
  have e: "slope_degrees elev (rx, ry) = Inr ?s" by (simp add: slope_degrees_def g)
  have l0: "length g0 = n" and l1: "length g1 = n" using r0 r1 by (simp_all add: rect_def)
  have row: "?s ! i = map2 slope_degrees_cell (g0 ! i) (g1 ! i)" if "i < n" for i
    using that l0 l1 by simp
  have rs: "rect n m ?s"
    using l0 l1 rect_row[OF r0] rect_row[OF r1] by (simp add: rect_def list_all_length)
  have "?s ! i ! j = slope_degrees_cell (diff_at (\<lambda>k. elev ! k ! j) n (Fin \<bar>rx\<bar>) i)
                                    (diff_at (\<lambda>k. elev ! i ! k) m (Fin \<bar>ry\<bar>) j)"
    if "i < n" "j < m" for i j
    using that row[OF that(1)] rect_row[OF r0 that(1)] rect_row[OF r1 that(1)] cells by simp
  with e rs show ?thesis by blast
qed

lemma axis_adjacent_stencil:
  assumes "axis_adjacent (i, j) (r, c)" and "i < n" and "j < m" and "r < n" and "c < m"
  shows "(j = c \<and> i \<in> set (stencil n r)) \<or> (i = r \<and> j \<in> set (stencil m c))"
  using assms by (auto simp: axis_adjacent_def stencil_def)

lemma rect_concat_nonempty: "rect n m g \<Longrightarrow> 0 < n \<Longrightarrow> 0 < m \<Longrightarrow> concat g \<noteq> []"
  by (cases g) (auto simp: rect_def)

text \<open>
  A sample elevation array with square 32 m cells and a single NaN in the interior, at
  \<open>(1, 1)\<close>: its slope array and its cost array.
\<close>

lemma upt3: "[0..<3] = [0, 1, 2]" by (simp add: upt_rec)
lemma upt4: "[0..<4] = [0, 1, 2, 3]" by (simp add: upt_rec)

lemma sample_slope:
  "slope_degrees [[Fin 0, Fin 0, Fin 64, Fin 64], [Fin 0, NaN, Fin 64, Fin 64], [Fin 0, Fin 0, Fin 64, Fin 64]] (32, - 32)
   = Inr [[Fin 0, NaN, Fin 45, Fin 0], [NaN, Fin 45, NaN, Fin 0], [Fin 0, NaN, Fin 45, Fin 0]]"
  by (simp add: slope_degrees_def gradient_def diff_at_def slope_degrees_cell_def upt3 upt4 arctan_one)

lemma sample_cost:
  "cost_array_of_dem [[Fin 0, Fin 0, Fin 64, Fin 64], [Fin 0, NaN, Fin 64, Fin 64], [Fin 0, Fin 0, Fin 64, Fin 64]] (32, - 32)
   = Inr [[Fin 1, Fin 9999, Fin 10, Fin 1], [Fin 9999, Fin 10, Fin 9999, Fin 1], [Fin 1, Fin 9999, Fin 10, Fin 1]]"
  by (simp add: cost_array_of_dem_def sample_slope cost_array_of_slope_def cost_surface_def
        cost_array_def grid_map_def nanmin_def nanmax_def fl_min_def fl_max_def
        cost_surface_cell_def slope_normalized_cell_def)

lemma stencil_bound: "2 \<le> n \<Longrightarrow> i < n \<Longrightarrow> k \<in> set (stencil n i) \<Longrightarrow> k < n"
  by (auto simp: stencil_def split: if_splits)

lemma diff_at_fin:
  assumes "d \<noteq> 0" and "\<forall>k\<in>set (stencil n i). is_fin (f k)"
  shows "is_fin (diff_at f n (Fin d) i)"
proof -
  have two: "\<And>a b. is_fin a \<Longrightarrow> is_fin b \<Longrightarrow> is_fin (fl_div (fl_sub a b) (Fin d))
                        \<and> is_fin (fl_div (fl_sub a b) (fl_mul (Fin 2) (Fin d)))"
  proof -
    fix a b assume "is_fin a" "is_fin b"
    then obtain x y where "a = Fin x" "b = Fin y" by (cases a; cases b) auto
    then show "is_fin (fl_div (fl_sub a b) (Fin d))
               \<and> is_fin (fl_div (fl_sub a b) (fl_mul (Fin 2) (Fin d)))"
      using assms(1) by simp
  qed
  show ?thesis using assms(2) two by (auto simp: diff_at_def stencil_def)
qed

lemma slope_degrees_cell_fin: "is_fin a \<Longrightarrow> is_fin b \<Longrightarrow> is_fin (slope_degrees_cell a b)"
proof -
  assume "is_fin a" "is_fin b"
  then obtain x y where xy: "a = Fin x" "b = Fin y" by (cases a; cases b) auto
  have "\<not> x * x + y * y < 0" by (simp add: not_less)
  then show ?thesis using xy by (simp add: slope_degrees_cell_def)
qed

lemma rect_cell_mem: "rect n m g \<Longrightarrow> i < n \<Longrightarrow> j < m \<Longrightarrow> g ! i ! j \<in> set (g ! i) \<and> g ! i \<in> set g"
  by (auto simp: rect_def list_all_length)

lemma finite_slope_cost:
  assumes c: "cost_array_of_slope slope = Inr cost" and i: "i < length slope"
    and j: "j < length (slope ! i)" and x: "slope ! i ! j = Fin x"
    and mn: "is_fin (nanmin (concat slope))"
    and lt: "fl_lt (nanmin (concat slope)) (nanmax (concat slope))"
  shows "in_1_10 (cost ! i ! j)"
proof -
  let ?mn = "nanmin (concat slope)" and ?mx = "nanmax (concat slope)"
  from mn obtain m where m: "?mn = Fin m" by (cases ?mn) auto
  have mem: "slope ! i ! j \<in> set (concat slope)" by (rule cell_in_concat[OF i j])
  have nn: "slope ! i ! j \<noteq> NaN" using x by simp
  have lo: "m \<le> x" using nanmin_lower[OF mem nn] x m by simp
  have up: "\<not> fl_lt ?mx (Fin x)" using nanmax_upper[OF mem nn] x by simp
  have "fl_lt (Fin m) ?mx" using lt m by simp
  from cost_cell_in_range[OF lo this up] show ?thesis
    using cost_array_of_slope_cell[OF c i j] x m by simp
qed

text \<open>
  Claim C10, as the code has it. In an elevation array of shape \<open>(n, m)\<close> with at least
  two rows and two columns, a cell \<open>(r, c)\<close> one of whose difference quotients reads a NaN
  elevation gets a NaN slope and the cost 9999, whatever its own elevation is; every
  in-grid cell next to a NaN cell along an axis is such a cell. The difference quotients
  of an interior cell read its four axis neighbours and not the cell itself, so a NaN
  cell contaminates itself only when it lies in the first or last row or column.
  Conversely, with nonzero spacings and elevations that are finite or NaN, a cell none
  of whose difference quotients reads a NaN has a finite slope, and its cost lies in
  \<open>[1, 10]\<close> when the smallest slope is finite and strictly below the largest.
\<close>

theorem nan_elevation_contaminates:
  assumes "rect n m elev" and "2 \<le> n" and "2 \<le> m" and "r < n" and "c < m"
  shows "\<exists>slope cost. slope_degrees elev res = Inr slope \<and> cost_array_of_dem elev res = Inr cost
           \<and> (nan_in_stencil elev r c \<longrightarrow> slope ! r ! c = NaN \<and> cost ! r ! c = Fin 9999)
           \<and> (\<forall>i<n. \<forall>j<m. elev ! i ! j = NaN \<and> axis_adjacent (i, j) (r, c)
                  \<longrightarrow> nan_in_stencil elev r c)
           \<and> (0 < r \<and> r < n - 1 \<and> 0 < c \<and> c < m - 1 \<longrightarrow>
                  nan_in_stencil elev r c =
                    (elev ! (r + 1) ! c = NaN \<or> elev ! (r - 1) ! c = NaN
                     \<or> elev ! r ! (c + 1) = NaN \<or> elev ! r ! (c - 1) = NaN))
           \<and> (\<not> nan_in_stencil elev r c \<and> fst res \<noteq> 0 \<and> snd res \<noteq> 0
                \<and> list_all (list_all (\<lambda>z. z = NaN \<or> is_fin z)) elev \<longrightarrow>
                  is_fin (slope ! r ! c)
                  \<and> (is_fin (nanmin (concat slope))
                       \<and> fl_lt (nanmin (concat slope)) (nanmax (concat slope))
                     \<longrightarrow> in_1_10 (cost ! r ! c)))"
proof -
  obtain rx ry where res: "res = (rx, ry)" by (cases res)
  from slope_degrees_cells[OF assms(1-3), of rx ry] obtain slope where
    s: "slope_degrees elev (rx, ry) = Inr slope" and rs: "rect n m slope"
    and cells: "\<forall>i<n. \<forall>j<m. slope ! i ! j =
                 slope_degrees_cell (diff_at (\<lambda>k. elev ! k ! j) n (Fin \<bar>rx\<bar>) i)
                                    (diff_at (\<lambda>k. elev ! i ! k) m (Fin \<bar>ry\<bar>) j)"
    by blast
  have cell: "slope ! r ! c =
                slope_degrees_cell (diff_at (\<lambda>k. elev ! k ! c) n (Fin \<bar>rx\<bar>) r)
                                   (diff_at (\<lambda>k. elev ! r ! k) m (Fin \<bar>ry\<bar>) c)"
    using cells assms(4,5) by simp
  have ln: "length elev = n" using assms(1) by (simp add: rect_def)
  have lr: "length (elev ! r) = m" by (rule rect_row[OF assms(1,4)])
  have st: "nan_in_stencil elev r c \<longleftrightarrow>
              (\<exists>i\<in>set (stencil n r). elev ! i ! c = NaN) \<or> (\<exists>j\<in>set (stencil m c). elev ! r ! j = NaN)"
    by (simp add: nan_in_stencil_def ln lr list_ex_iff)
  have ne: "concat slope \<noteq> []"
    using rect_concat_nonempty[OF rs] assms(2,3) by simp
  then obtain cost where co: "cost_array_of_slope slope = Inr cost"
    by (simp add: cost_array_of_slope_def cost_surface_def)
  have lsn: "r < length slope" using rs assms(4) by (simp add: rect_def)
  have lsm: "c < length (slope ! r)" using rect_row[OF rs assms(4)] assms(5) by simp
  have dem: "cost_array_of_dem elev res = Inr cost"
    by (simp add: cost_array_of_dem_def res s co)
  have p1: "slope ! r ! c = NaN \<and> cost ! r ! c = Fin 9999" if "nan_in_stencil elev r c"
  proof -
    have "diff_at (\<lambda>k. elev ! k ! c) n (Fin \<bar>rx\<bar>) r = NaN
          \<or> diff_at (\<lambda>k. elev ! r ! k) m (Fin \<bar>ry\<bar>) c = NaN"
      using that st diff_at_NaN[of _ n r "\<lambda>k. elev ! k ! c"] diff_at_NaN[of _ m c "\<lambda>k. elev ! r ! k"]
      by blast
    then have nan: "slope ! r ! c = NaN" using cell slope_degrees_cell_NaN by simp
    then show ?thesis
      using cost_array_of_slope_cell[OF co lsn lsm] by (simp add: cost_cell_invalid)
  qed
  have p2: "nan_in_stencil elev r c"
    if "i < n" "j < m" "elev ! i ! j = NaN \<and> axis_adjacent (i, j) (r, c)" for i j
    using axis_adjacent_stencil[OF _ that(1,2) assms(4,5)] that(3) st by auto
  have p3: "nan_in_stencil elev r c =
              (elev ! (r + 1) ! c = NaN \<or> elev ! (r - 1) ! c = NaN
               \<or> elev ! r ! (c + 1) = NaN \<or> elev ! r ! (c - 1) = NaN)"
    if "0 < r \<and> r < n - 1 \<and> 0 < c \<and> c < m - 1"
    using that by (auto simp: st stencil_def)
  have p4: "is_fin (slope ! r ! c)
            \<and> (is_fin (nanmin (concat slope))
                 \<and> fl_lt (nanmin (concat slope)) (nanmax (concat slope))
               \<longrightarrow> in_1_10 (cost ! r ! c))"
    if h: "\<not> nan_in_stencil elev r c \<and> fst res \<noteq> 0 \<and> snd res \<noteq> 0
           \<and> list_all (list_all (\<lambda>z. z = NaN \<or> is_fin z)) elev"
  proof -
    have nz: "\<bar>rx\<bar> \<noteq> 0" "\<bar>ry\<bar> \<noteq> 0" using h res by simp_all
    have all: "elev ! i ! j = NaN \<or> is_fin (elev ! i ! j)" if "i < n" "j < m" for i j
      using h rect_cell_mem[OF assms(1) that] by (auto simp: list_all_iff)
    have f0: "\<forall>k\<in>set (stencil n r). is_fin (elev ! k ! c)"
      using h st all stencil_bound[OF assms(2,4)] assms(5) by blast
    have f1: "\<forall>k\<in>set (stencil m c). is_fin (elev ! r ! k)"
      using h st all stencil_bound[OF assms(3,5)] assms(4) by blast
    have fin: "is_fin (slope ! r ! c)"
      unfolding cell
      by (intro slope_degrees_cell_fin diff_at_fin nz f0 f1)
    then obtain x where x: "slope ! r ! c = Fin x" by (cases "slope ! r ! c") auto
    show ?thesis using fin finite_slope_cost[OF co lsn lsm x] by blast
  qed
  show ?thesis using s dem res p1 p2 p3 p4 by blast
qed

theorem nan_elevation_contaminates_witness:
  "\<exists>slope cost.
     slope_degrees [[Fin 0, Fin 0, Fin 64, Fin 64], [Fin 0, NaN, Fin 64, Fin 64], [Fin 0, Fin 0, Fin 64, Fin 64]] (32, - 32) = Inr slope
     \<and> cost_array_of_dem [[Fin 0, Fin 0, Fin 64, Fin 64], [Fin 0, NaN, Fin 64, Fin 64], [Fin 0, Fin 0, Fin 64, Fin 64]] (32, - 32) = Inr cost
     \<and> slope ! 0 ! 1 = NaN \<and> cost ! 0 ! 1 = Fin 9999
     \<and> is_fin (slope ! 0 ! 2) \<and> in_1_10 (cost ! 0 ! 2)
     \<and> cost = [[Fin 1, Fin 9999, Fin 10, Fin 1], [Fin 9999, Fin 10, Fin 9999, Fin 1], [Fin 1, Fin 9999, Fin 10, Fin 1]]"
proof -
  let ?E = "[[Fin 0, Fin 0, Fin 64, Fin 64], [Fin 0, NaN, Fin 64, Fin 64], [Fin 0, Fin 0, Fin 64, Fin 64]]"
  let ?S = "[[Fin 0, NaN, Fin 45, Fin 0], [NaN, Fin 45, NaN, Fin 0], [Fin 0, NaN, Fin 45, Fin 0]]"
  have r: "rect 3 4 ?E" by (simp add: rect_def)
  have h: "nan_in_stencil ?E 0 1" by (simp add: nan_in_stencil_def stencil_def)
  have g: "\<not> nan_in_stencil ?E 0 2" by (simp add: nan_in_stencil_def stencil_def)
  have l: "list_all (list_all (\<lambda>z. z = NaN \<or> is_fin z)) ?E" by simp
  have mn: "nanmin (concat ?S) = Fin 0" by (simp add: nanmin_def fl_min_def)
  have mx: "nanmax (concat ?S) = Fin 45" by (simp add: nanmax_def fl_max_def)
  from nan_elevation_contaminates[OF r, of 0 1 "(32, - 32)"] h obtain slope cost where
    s: "slope_degrees ?E (32, - 32) = Inr slope" and c: "cost_array_of_dem ?E (32, - 32) = Inr cost"
    and v: "slope ! 0 ! 1 = NaN" "cost ! 0 ! 1 = Fin 9999"
    by auto
  have se: "slope = ?S" using s by (simp add: sample_slope)
  have ce: "cost = [[Fin 1, Fin 9999, Fin 10, Fin 1], [Fin 9999, Fin 10, Fin 9999, Fin 1], [Fin 1, Fin 9999, Fin 10, Fin 1]]"
    using c by (simp add: sample_cost)
  from nan_elevation_contaminates[OF r, of 0 2 "(32, - 32)"] g l s c
  have "is_fin (slope ! 0 ! 2)
        \<and> (is_fin (nanmin (concat slope)) \<and> fl_lt (nanmin (concat slope)) (nanmax (concat slope))
           \<longrightarrow> in_1_10 (cost ! 0 ! 2))"
    by auto
  then have w: "is_fin (slope ! 0 ! 2)" "in_1_10 (cost ! 0 ! 2)"
    using mn mx unfolding se by simp_all
  from s c v w ce show ?thesis by blast
qed

text \<open>
  Claim C10 as stated fails for the NaN cell itself: in the sample array the NaN
  elevation at the interior cell \<open>(1, 1)\<close> gets the valid slope 45 and the cost 10,
  while its four axis neighbours cost 9999.
\<close>

theorem nan_cell_itself_valid_counterexample:
  "[[Fin 0, Fin 0, Fin 64, Fin 64], [Fin 0, NaN, Fin 64, Fin 64], [Fin 0, Fin 0, Fin 64, Fin 64]] ! 1 ! 1 = NaN
   \<and> slope_degrees [[Fin 0, Fin 0, Fin 64, Fin 64], [Fin 0, NaN, Fin 64, Fin 64], [Fin 0, Fin 0, Fin 64, Fin 64]] (32, - 32)
       = Inr [[Fin 0, NaN, Fin 45, Fin 0], [NaN, Fin 45, NaN, Fin 0], [Fin 0, NaN, Fin 45, Fin 0]]
   \<and> [[Fin 0, NaN, Fin 45, Fin 0], [NaN, Fin 45, NaN, Fin 0], [Fin 0, NaN, Fin 45, Fin 0]] ! 1 ! 1 = Fin 45
   \<and> cost_array_of_dem [[Fin 0, Fin 0, Fin 64, Fin 64], [Fin 0, NaN, Fin 64, Fin 64], [Fin 0, Fin 0, Fin 64, Fin 64]] (32, - 32)
       = Inr [[Fin 1, Fin 9999, Fin 10, Fin 1], [Fin 9999, Fin 10, Fin 9999, Fin 1], [Fin 1, Fin 9999, Fin 10, Fin 1]]
   \<and> [[Fin 1, Fin 9999, Fin 10, Fin 1], [Fin 9999, Fin 10, Fin 9999, Fin 1], [Fin 1, Fin 9999, Fin 10, Fin 1]] ! 1 ! 1 = Fin 10
   \<and> in_1_10 (Fin 10)"
  by (simp add: sample_slope sample_cost)



text \<open>
  The order of the unpacking \<^verbatim>\<open>res_y, res_x = map(abs, dem.rio.resolution())\<close> matters
  only for cells that are not square, which the notebook never builds: with columns 2
  ground units apart and rows 1 unit apart the row-axis difference would be divided by
  twice the column spacing.
\<close>

lemma slope_spacing_swapped:
  "\<exists>slope. slope_degrees [[Fin 0, Fin 0, Fin 0], [Fin 1, Fin 1, Fin 1], [Fin 2, Fin 2, Fin 2]] (2, - 1) = Inr slope
     \<and> slope ! 1 ! 1 = Fin (arctan (1 / 2) * 180 / pi)
     \<and> slope_degrees_cell (Fin ((2 - 0) / (2 * 1))) (Fin ((1 - 1) / (2 * 2))) = Fin 45
     \<and> arctan (1 / 2) * 180 / pi < 45"
proof -
  let ?E = "[[Fin 0, Fin 0, Fin 0], [Fin 1, Fin 1, Fin 1], [Fin 2, Fin 2, Fin 2]]"
  have r: "rect 3 3 ?E" by (simp add: rect_def)
  from slope_degrees_cells[OF r, of 2 "- 1"] obtain slope where
    s: "slope_degrees ?E (2, - 1) = Inr slope"
    and cells: "\<forall>i<3. \<forall>j<3. slope ! i ! j =
                 slope_degrees_cell (diff_at (\<lambda>k. ?E ! k ! j) 3 (Fin \<bar>2\<bar>) i)
                                    (diff_at (\<lambda>k. ?E ! i ! k) 3 (Fin \<bar>- 1\<bar>) j)"
    by auto
  have sq: "sqrt (1 / 4) = 1 / 2"
    by (rule real_sqrt_unique) (simp_all add: power2_eq_square)
  have c: "slope ! 1 ! 1 = Fin (arctan (1 / 2) * 180 / pi)"
    using cells[rule_format, of 1 1] sq by (simp add: diff_at_def slope_degrees_cell_def)
  have own: "slope_degrees_cell (Fin ((2 - 0) / (2 * 1))) (Fin ((1 - 1) / (2 * 2))) = Fin 45"
    by (simp add: slope_degrees_cell_def arctan_one)
  have "arctan (1 / 2) < arctan (1::real)" by (simp add: arctan_less_iff del: arctan_one)
  then have "arctan (1 / 2) < pi / 4" by (simp add: arctan_one)
  then have "arctan (1 / 2) * 180 < 45 * pi" by simp
  then have lt: "arctan (1 / 2) * 180 / pi < 45" by (simp add: pos_divide_less_eq)
  from s c own lt show ?thesis by blast
qed

lemma inverse_point_alg:
  fixes a b c d e f x y D fc fr :: real
  assumes D: "D = a * e - b * d" and nz: "D \<noteq> 0"
    and fcD: "fc * D = e * (x - c) - b * (y - f)"
    and frD: "fr * D = a * (y - f) - d * (x - c)"
  shows "fc * a + fr * b + c = x \<and> fc * d + fr * e + f = y"
proof -
  have "(fc * a + fr * b + c - x) * D = a * (fc * D) + b * (fr * D) + (c - x) * D"
    by (simp add: algebra_simps)
  also have "\<dots> = a * (e * (x - c) - b * (y - f)) + b * (a * (y - f) - d * (x - c))
                   + (c - x) * D"
    by (simp only: fcD frD)
  also have "\<dots> = 0" unfolding D by (simp add: algebra_simps)
  finally have 1: "fc * a + fr * b + c - x = 0" using nz by simp
  have "(fc * d + fr * e + f - y) * D = d * (fc * D) + e * (fr * D) + (f - y) * D"
    by (simp add: algebra_simps)
  also have "\<dots> = d * (e * (x - c) - b * (y - f)) + e * (a * (y - f) - d * (x - c))
                   + (f - y) * D"
    by (simp only: fcD frD)
  also have "\<dots> = 0" unfolding D by (simp add: algebra_simps)
  finally have 2: "fc * d + fr * e + f - y = 0" using nz by simp
  from 1 2 show ?thesis by simp
qed

lemma invert_apply:
  assumes "determinant t \<noteq> 0" and "invert t = Inr rt" and "apply_affine rt (x, y) = (fc, fr)"
  shows "apply_affine t (fc, fr) = (x, y)"
proof -
  define D where "D = determinant t"
  have nz: "D \<noteq> 0" using assms(1) by (simp add: D_def)
  have Dab: "D = af_a t * af_e t - af_b t * af_d t" by (simp add: D_def determinant_def)
  have rt: "rt = \<lparr>af_a = af_e t * (1 / D), af_b = - af_b t * (1 / D),
                  af_c = - af_c t * (af_e t * (1 / D)) - af_f t * (- af_b t * (1 / D)),
                  af_d = - af_d t * (1 / D), af_e = af_a t * (1 / D),
                  af_f = - af_c t * (- af_d t * (1 / D)) - af_f t * (af_a t * (1 / D))\<rparr>"
    using assms(1,2) by (simp add: invert_def Let_def D_def)
  have fc: "fc = x * (af_e t * (1 / D)) + y * (- af_b t * (1 / D))
                 + (- af_c t * (af_e t * (1 / D)) - af_f t * (- af_b t * (1 / D)))"
    using assms(3) by (simp add: apply_affine_def rt)
  have fr: "fr = x * (- af_d t * (1 / D)) + y * (af_a t * (1 / D))
                 + (- af_c t * (- af_d t * (1 / D)) - af_f t * (af_a t * (1 / D)))"
    using assms(3) by (simp add: apply_affine_def rt)
  have fcD: "fc * D = af_e t * (x - af_c t) - af_b t * (y - af_f t)"
    unfolding fc using nz by (simp add: field_simps)
  have frD: "fr * D = af_a t * (y - af_f t) - af_d t * (x - af_c t)"
    unfolding fr using nz by (simp add: field_simps)
  from inverse_point_alg[OF Dab nz fcD frD] show ?thesis by (simp add: apply_affine_def)
qed

text \<open>
  Claim C4, as the code has it. For an invertible transform and every ground coordinate
  \<open>(x, y)\<close>, \<open>rowcol\<close> returns: it floors the inverse transform, so the returned cell
  contains the point (the point is the image of \<open>(col + u, row + v)\<close> for some
  \<open>u, v\<close> in \<open>[0, 1)\<close>). It is given no array shape and makes no bounds check.
\<close>

theorem rowcol_floor_unchecked:
  assumes "determinant t \<noteq> 0"
  shows "\<exists>row col u v. rowcol t x y = Inr (row, col)
           \<and> 0 \<le> u \<and> u < 1 \<and> 0 \<le> v \<and> v < 1
           \<and> apply_affine t (of_int col + u, of_int row + v) = (x, y)"
proof -
  obtain rt where rt: "invert t = Inr rt" using assms by (simp add: invert_def Let_def)
  obtain fc fr where f: "apply_affine rt (x, y) = (fc, fr)" by (cases "apply_affine rt (x, y)")
  have rc: "rowcol t x y = Inr (\<lfloor>fr\<rfloor>, \<lfloor>fc\<rfloor>)" by (simp add: rowcol_def rt f)
  have fwd: "apply_affine t (of_int \<lfloor>fc\<rfloor> + (fc - of_int \<lfloor>fc\<rfloor>), of_int \<lfloor>fr\<rfloor> + (fr - of_int \<lfloor>fr\<rfloor>)) = (x, y)"
    using invert_apply[OF assms rt f] by simp
  have "0 \<le> fc - of_int \<lfloor>fc\<rfloor>" "fc - of_int \<lfloor>fc\<rfloor> < 1" "0 \<le> fr - of_int \<lfloor>fr\<rfloor>" "fr - of_int \<lfloor>fr\<rfloor> < 1"
    by linarith+
  with rc fwd show ?thesis by blast
qed

theorem rowcol_floor_unchecked_witness:
  "\<exists>row col u v. rowcol \<lparr>af_a = 32, af_b = 0, af_c = - 100, af_d = 0, af_e = - 32, af_f = 200\<rparr> (- 30) 100 = Inr (row, col)
           \<and> 0 \<le> u \<and> u < 1 \<and> 0 \<le> v \<and> v < 1
           \<and> apply_affine \<lparr>af_a = 32, af_b = 0, af_c = - 100, af_d = 0, af_e = - 32, af_f = 200\<rparr> (of_int col + u, of_int row + v) = (- 30, 100)"
  by (rule rowcol_floor_unchecked) (simp add: determinant_def)

text \<open>
  Claim C4 as stated fails: for a coordinate outside the extent of a 2 by 2 grid \<open>rowcol\<close>
  raises no error and returns the index \<open>(-5, 5)\<close>, which is outside the grid.
\<close>

theorem rowcol_out_of_grid_counterexample:
  "rowcol \<lparr>af_a = 1, af_b = 0, af_c = 0, af_d = 0, af_e = - 1, af_f = 0\<rparr> 5 5 = Inr (- 5, 5)
   \<and> \<not> in_grid 2 2 (- 5, 5)"
  by (simp add: rowcol_def invert_def determinant_def apply_affine_def in_grid_def)

end
